theory Spec2Isabelle
  imports
    Complex_Main
    "HOL-Library.AList"
    "HOL-Library.Multiset"
    "HOL-Library.Sublist"
    "HOL-Library.Char_ord"
    "HOL-Library.List_Lexorder"
    "HOL-Library.Product_Lexorder"
begin

section \<open>CourseGPT: a shallow embedding of the pipeline, the query service and the UI scan\<close>

text \<open>
  The development follows the three Python sources: \<^verbatim>\<open>main.py\<close> (generation
  pipeline), \<^verbatim>\<open>api/main.py\<close> (query and creation service) and
  \<^verbatim>\<open>streamlit_app.py\<close> (viewer and creator).

  Conventions.
  \<^item> A Python \<^verbatim>\<open>str\<close> is a \<^typ>\<open>string\<close>; a \<^typ>\<open>char\<close> stands for the code point of the
    same number, so the model covers text over the code points below 256 (ASCII and the
    Latin-1 supplement). The character classes of Python's \<^verbatim>\<open>re\<close> on \<^verbatim>\<open>str\<close>
    patterns (\<^verbatim>\<open>\w\<close>, \<^verbatim>\<open>\d\<close>, \<^verbatim>\<open>\s\<close>) are written out for that range.
  \<^item> A raise is a value: functions that can raise return \<open>py_error + 'a\<close>.
  \<^item> A dict is an association list in insertion order, updated in place
    (\<^const>\<open>AList.update\<close>), as Python dicts and \<^verbatim>\<open>json.dump\<close> keep it.
  \<^item> \<^verbatim>\<open>datetime.now()\<close>, the directory listing and the answers of the remote API are
    inputs of the functions that read them.
\<close>

subsection \<open>Errors\<close>

datatype py_error =
    ZeroDivisionError
  | ValueError string
  | JSONDecodeError
  | TypeError
  | OverflowError
  | RuntimeError string
  | Exception string

text \<open>Python's \<^verbatim>\<open>a / b\<close> on integers: true division, raising on a zero divisor.\<close>

definition py_truediv :: "int \<Rightarrow> int \<Rightarrow> py_error + rat" where
  "py_truediv a b = (if b = 0 then Inl ZeroDivisionError else Inr (of_int a / of_int b))"

subsection \<open>\<^verbatim>\<open>ProgressTracker\<close> (main.py)\<close>

text \<open>
  Keys of \<^verbatim>\<open>content_status\<close>: \<^verbatim>\<open>set_descriptions_complete\<close> stores Python integers,
  the per-subunit setters store strings. In a Python dict \<^verbatim>\<open>1\<close> and \<^verbatim>\<open>"1"\<close> are
  different keys.
\<close>

datatype key = IntKey int | StrKey string

text \<open>
  A log entry keeps the level and the component; of the message it keeps the one number a
  message computes (the progress percentage). Time stamps and message texts are read by
  no decision of the program and are left out.
\<close>

record log_entry =
  level :: string
  component :: string
  progress :: "rat option"

record ProgressTracker =
  course_title :: string
  status :: string
  outline_status :: string
  description_status :: string
  content_status :: "(key \<times> string) list"
  errors :: "(string \<times> string) list"
  completed_count :: int
  total_count :: int
  logs :: "log_entry list"


definition tracker_log :: "string \<Rightarrow> string \<Rightarrow> ProgressTracker \<Rightarrow> ProgressTracker" where
  "tracker_log lvl cname t =
     t\<lparr> logs := logs t @ [\<lparr> level = lvl, component = cname, progress = None \<rparr>] \<rparr>"

definition set_outline_complete :: "int \<Rightarrow> ProgressTracker \<Rightarrow> ProgressTracker" where
  "set_outline_complete units_count t =
     tracker_log ''success'' ''outline''
       (t\<lparr> outline_status := ''complete'', status := ''enhancing-descriptions'' \<rparr>)"



text \<open>
  \<^verbatim>\<open>progress = (self.completed_count / self.total_count) * 100 if self.total_count > 0 else 0\<close>:
  the conditional expression binds weakest, so the division is under the guard.
\<close>

definition percentage :: "int \<Rightarrow> int \<Rightarrow> py_error + rat" where
  "percentage completed expected =
     (if expected > 0
      then (case py_truediv completed expected of Inl e \<Rightarrow> Inl e | Inr q \<Rightarrow> Inr (q * 100))
      else Inr 0)"

definition complete_subunit_content :: "string \<Rightarrow> ProgressTracker \<Rightarrow> py_error + ProgressTracker" where
  "complete_subunit_content subunit_id t =
     (let t1 = t\<lparr> content_status := AList.update (StrKey subunit_id) ''complete'' (content_status t),
                   completed_count := completed_count t + 1 \<rparr>
      in case percentage (completed_count t1) (total_count t1) of
           Inl e \<Rightarrow> Inl e
         | Inr p \<Rightarrow>
             (let t2 = t1\<lparr> logs := logs t1 @
                        [\<lparr> level = ''success'', component = ''subunit-'' @ subunit_id,
                           progress = Some p \<rparr>] \<rparr>
              in if completed_count t2 = total_count t2
                 then Inr (tracker_log ''success'' ''pipeline'' (t2\<lparr> status := ''complete'' \<rparr>))
                 else Inr t2))"


record summary =
  sum_course_title :: string
  sum_status :: string
  sum_outline_status :: string
  sum_description_status :: string
  completed_subunits :: int
  total_subunits :: int
  progress_percentage :: rat
  error_count :: int

definition get_summary :: "ProgressTracker \<Rightarrow> py_error + summary" where
  "get_summary t =
     (case percentage (completed_count t) (total_count t) of
        Inl e \<Rightarrow> Inl e
      | Inr p \<Rightarrow>
          Inr \<lparr> sum_course_title = course_title t, sum_status = status t,
                sum_outline_status = outline_status t,
                sum_description_status = description_status t,
                completed_subunits = completed_count t, total_subunits = total_count t,
                progress_percentage = p, error_count = int (length (errors t)) \<rparr>)"

subsection \<open>Character classes of Python's \<^verbatim>\<open>re\<close> and \<^verbatim>\<open>str\<close>\<close>

text \<open>
  On a \<^verbatim>\<open>str\<close> pattern \<^verbatim>\<open>\w\<close> matches the underscore and every character for which
  \<^verbatim>\<open>str.isalnum()\<close> holds, \<^verbatim>\<open>\d\<close> the decimal digits and \<^verbatim>\<open>\s\<close> the characters for
  which \<^verbatim>\<open>str.isspace()\<close> holds (the ones \<^verbatim>\<open>str.strip()\<close> removes). Below 256 these are
  the following code points; beyond ASCII they include the letters of the Latin-1
  supplement (for instance U+00E9, e with acute accent).
\<close>

definition is_ascii :: "char \<Rightarrow> bool" where
  "is_ascii c = ((of_char c :: nat) < 128)"

definition is_digit :: "char \<Rightarrow> bool" where
  "is_digit c = (let n = (of_char c :: nat) in 0x30 \<le> n \<and> n \<le> 0x39)"

definition is_alnum :: "char \<Rightarrow> bool" where
  "is_alnum c =
     (let n = (of_char c :: nat) in
        (0x30 \<le> n \<and> n \<le> 0x39) \<or> (0x41 \<le> n \<and> n \<le> 0x5A) \<or> (0x61 \<le> n \<and> n \<le> 0x7A)
        \<or> n = 0xAA \<or> (0xB2 \<le> n \<and> n \<le> 0xB3) \<or> n = 0xB5 \<or> (0xB9 \<le> n \<and> n \<le> 0xBA)
        \<or> (0xBC \<le> n \<and> n \<le> 0xBE) \<or> (0xC0 \<le> n \<and> n \<le> 0xD6) \<or> (0xD8 \<le> n \<and> n \<le> 0xF6)
        \<or> 0xF8 \<le> n)"

definition is_word :: "char \<Rightarrow> bool" where
  "is_word c = (is_alnum c \<or> c = CHR ''_'')"

definition is_space :: "char \<Rightarrow> bool" where
  "is_space c =
     (let n = (of_char c :: nat) in
        (0x09 \<le> n \<and> n \<le> 0x0D) \<or> (0x1C \<le> n \<and> n \<le> 0x20) \<or> n = 0x85 \<or> n = 0xA0)"

text \<open>\<^verbatim>\<open>str.strip()\<close>\<close>

definition strip :: "string \<Rightarrow> string" where
  "strip s = rev (dropWhile is_space (rev (dropWhile is_space s)))"

text \<open>The character set \<^verbatim>\<open>[A-Za-z0-9_.-]\<close> that the specification names.\<close>

definition spec_charset :: "char \<Rightarrow> bool" where
  "spec_charset c =
     (let n = (of_char c :: nat) in
        (0x30 \<le> n \<and> n \<le> 0x39) \<or> (0x41 \<le> n \<and> n \<le> 0x5A) \<or> (0x61 \<le> n \<and> n \<le> 0x7A)
        \<or> c = CHR ''_'' \<or> c = CHR ''.'' \<or> c = CHR ''-'')"

subsection \<open>Dates and decimal numerals\<close>

text \<open>
  A naive \<^verbatim>\<open>datetime\<close>: year, month, day, hour, minute, second, microsecond. Python
  compares two of them field by field in this order, which is the lexicographic order of
  the tuple.
\<close>

type_synonym datetime = "nat \<times> nat \<times> nat \<times> nat \<times> nat \<times> nat \<times> nat"

definition digit_char :: "nat \<Rightarrow> char" where
  "digit_char d = ''0123456789'' ! (d mod 10)"

definition pad2 :: "nat \<Rightarrow> string" where
  "pad2 n = [digit_char (n div 10), digit_char n]"

definition pad4 :: "nat \<Rightarrow> string" where
  "pad4 n = [digit_char (n div 1000), digit_char (n div 100), digit_char (n div 10), digit_char n]"

text \<open>
  \<^verbatim>\<open>strftime("%Y%m%d-%H%M%S")\<close>, for the four-digit years that the clock returns.
\<close>

fun strftime :: "datetime \<Rightarrow> string" where
  "strftime (y, m, d, H, M, S, us) = pad4 y @ pad2 m @ pad2 d @ ''-'' @ pad2 H @ pad2 M @ pad2 S"

subsection \<open>Decimal numerals of integers\<close>



subsection \<open>\<^verbatim>\<open>RateLimitTracker\<close> (main.py)\<close>












subsection \<open>\<^verbatim>\<open>PerplexityClient.send_request\<close> (main.py)\<close>










subsection \<open>File and folder names\<close>

text \<open>\<^verbatim>\<open>re.sub(r'[^\w\-\.]', '_', text)\<close>\<close>

definition keep_char :: "char \<Rightarrow> bool" where
  "keep_char c = (is_word c \<or> c = CHR ''-'' \<or> c = CHR ''.'')"

definition replace_special :: "string \<Rightarrow> string" where
  "replace_special text = map (\<lambda>c. if keep_char c then c else CHR ''_'') text"

text \<open>
  \<^verbatim>\<open>re.sub(r'__+', '_', sanitized)\<close>: scanning from the left, a run of two or more
  underscores is one match and is replaced by one underscore.
\<close>

function collapse_underscores :: "string \<Rightarrow> string" where
  "collapse_underscores [] = []"
| "collapse_underscores (c # cs) =
     (if c = CHR ''_'' \<and> cs \<noteq> [] \<and> hd cs = CHR ''_''
      then CHR ''_'' # collapse_underscores (dropWhile (\<lambda>x. x = CHR ''_'') cs)
      else c # collapse_underscores cs)"
  by pat_completeness auto
termination
  by (relation "measure length") (auto simp: less_Suc_eq_le length_dropWhile_le)

text \<open>\<^verbatim>\<open>FileUtils.sanitize_filename\<close> (main.py)\<close>

definition sanitize_filename :: "string \<Rightarrow> string" where
  "sanitize_filename text =
     (let sanitized = collapse_underscores (replace_special text)
      in if length sanitized > 50 then take 50 sanitized else sanitized)"

text \<open>\<^verbatim>\<open>FileUtils.create_course_folder\<close> (main.py); \<open>now\<close> is \<^verbatim>\<open>datetime.now()\<close>.\<close>

definition create_course_folder :: "string \<Rightarrow> datetime \<Rightarrow> string" where
  "create_course_folder title now =
     (let timestamp = strftime now; safe_title = sanitize_filename title
      in safe_title @ ''-'' @ timestamp)"

text \<open>The folder name computed by \<^verbatim>\<open>create_course\<close> (api/main.py, POST /courses/create).\<close>

definition create_course_folder_name :: "string \<Rightarrow> datetime \<Rightarrow> string" where
  "create_course_folder_name title now =
     (let timestamp = strftime now;
          safe_folder_name = replace_special title;
          safe_folder_name = (if length safe_folder_name > 50 then take 50 safe_folder_name
                              else safe_folder_name)
      in safe_folder_name @ ''-'' @ timestamp)"

text \<open>
  The folder name computed by \<^verbatim>\<open>CourseCreator.start_course_generation\<close>
  (streamlit_app.py): the title first has every double quote replaced by a backslash and
  a double quote.
\<close>

definition escape_quotes :: "string \<Rightarrow> string" where
  "escape_quotes s = concat (map (\<lambda>c. if c = CHR 0x22 then [CHR 0x5C, CHR 0x22] else [c]) s)"

definition start_course_generation_folder_name :: "string \<Rightarrow> datetime \<Rightarrow> string" where
  "start_course_generation_folder_name title now =
     (let safe_title = escape_quotes title;
          timestamp = strftime now;
          safe_folder_name = replace_special safe_title;
          safe_folder_name = (if length safe_folder_name > 50 then take 50 safe_folder_name
                              else safe_folder_name)
      in safe_folder_name @ ''-'' @ timestamp)"

text \<open>Two underscores next to each other somewhere in a string.\<close>

fun adjacent_underscores :: "string \<Rightarrow> bool" where
  "adjacent_underscores (a # b # cs) =
     ((a = CHR ''_'' \<and> b = CHR ''_'') \<or> adjacent_underscores (b # cs))"
| "adjacent_underscores cs = False"

subsection \<open>Time stamps in folder names\<close>

text \<open>
  \<^verbatim>\<open>re.search(r'(\d{8}-\d{6})', folder_name)\<close>: the leftmost position at which eight digits, a
  hyphen and six digits stand; the match is these 15 characters.
\<close>

definition stamp_here :: "string \<Rightarrow> bool" where
  "stamp_here s =
     (length s \<ge> 15 \<and> list_all is_digit (take 8 s) \<and> s ! 8 = CHR ''-''
      \<and> list_all is_digit (take 6 (drop 9 s)))"

fun search_stamp :: "string \<Rightarrow> string option" where
  "search_stamp [] = None"
| "search_stamp (c # cs) =
     (if stamp_here (c # cs) then Some (take 15 (c # cs)) else search_stamp cs)"

text \<open>\<^verbatim>\<open>int\<close> of a string of decimal digits.\<close>

definition digits_value :: "string \<Rightarrow> nat" where
  "digits_value s = foldl (\<lambda>a c. 10 * a + ((of_char c :: nat) - 0x30)) 0 s"

definition is_leap :: "nat \<Rightarrow> bool" where
  "is_leap y = (y mod 4 = 0 \<and> (y mod 100 \<noteq> 0 \<or> y mod 400 = 0))"

definition days_in_month :: "nat \<Rightarrow> nat \<Rightarrow> nat" where
  "days_in_month y m =
     (if m = 2 then (if is_leap y then 29 else 28)
      else if m = 4 \<or> m = 6 \<or> m = 9 \<or> m = 11 then 30 else 31)"

text \<open>
  \<^verbatim>\<open>datetime.strptime(timestamp_str, "%Y%m%d-%H%M%S")\<close> on a string of the shape that
  \<^const>\<open>search_stamp\<close> returns. Every field of the format then reads its full width (a
  shorter reading leaves unconverted data or misses the hyphen), and the call raises
  \<^verbatim>\<open>ValueError\<close> unless the fields form a date and a time of day: year 1 to 9999, month 1
  to 12, a day of that month, hour below 24, minute and second below 60.
\<close>

definition strptime :: "string \<Rightarrow> py_error + datetime" where
  "strptime s =
     (let y = digits_value (take 4 s); m = digits_value (take 2 (drop 4 s));
          d = digits_value (take 2 (drop 6 s)); H = digits_value (take 2 (drop 9 s));
          M = digits_value (take 2 (drop 11 s)); S = digits_value (take 2 (drop 13 s))
      in if 1 \<le> y \<and> 1 \<le> m \<and> m \<le> 12 \<and> 1 \<le> d \<and> d \<le> days_in_month y m
            \<and> H \<le> 23 \<and> M \<le> 59 \<and> S \<le> 59
         then Inr (y, m, d, H, M, S, 0)
         else Inl (ValueError ''time data does not match format''))"

definition pad6 :: "nat \<Rightarrow> string" where
  "pad6 n = [digit_char (n div 100000), digit_char (n div 10000), digit_char (n div 1000),
             digit_char (n div 100), digit_char (n div 10), digit_char n]"

text \<open>\<^verbatim>\<open>datetime.isoformat()\<close>\<close>

fun isoformat :: "datetime \<Rightarrow> string" where
  "isoformat (y, m, d, H, M, S, us) =
     pad4 y @ ''-'' @ pad2 m @ ''-'' @ pad2 d @ ''T'' @ pad2 H @ '':'' @ pad2 M @ '':'' @ pad2 S
     @ (if us = 0 then [] else ''.'' @ pad6 us)"

text \<open>\<^verbatim>\<open>extract_timestamp_from_folder\<close> (api/main.py)\<close>

definition extract_timestamp_from_folder :: "string \<Rightarrow> string option" where
  "extract_timestamp_from_folder folder_name =
     (case search_stamp folder_name of
        Some timestamp_str \<Rightarrow>
          (case strptime timestamp_str of
             Inr ts \<Rightarrow> Some (isoformat ts)
           | Inl e \<Rightarrow> None)
      | None \<Rightarrow> None)"

subsection \<open>The output directory\<close>

text \<open>
  What \<^verbatim>\<open>save_progress\<close> writes: the summary, the status and error maps as JSON objects
  (lists of members in order) and the log.
\<close>

record snapshot =
  snap_summary :: summary
  snap_content_status :: "(string \<times> string) list"
  snap_errors :: "(string \<times> string) list"
  snap_logs :: "log_entry list"

text \<open>
  A file is a progress record, a text, or the \<^verbatim>\<open>json.dumps\<close> of an outline or of a
  description list, whose text is not modelled. The file system maps the paths of the
  files that exist to their contents.
\<close>

datatype file_content = ProgressFile snapshot | TextFile string | JsonDump

type_synonym filesystem = "string \<Rightarrow> file_content option"

definition OUTPUT_DIR :: string where
  "OUTPUT_DIR = ''output''"

definition API_OUTPUT_DIR :: string where
  "API_OUTPUT_DIR = OUTPUT_DIR"

text \<open>\<^verbatim>\<open>os.path.join\<close> on relative components.\<close>

definition path_join :: "string \<Rightarrow> string \<Rightarrow> string" where
  "path_join a b = a @ ''/'' @ b"

definition is_course_complete :: "filesystem \<Rightarrow> string \<Rightarrow> bool" where
  "is_course_complete fs course_folder =
     (let progress_final_path =
            path_join (path_join API_OUTPUT_DIR course_folder) ''progress_final.json''
      in fs progress_final_path \<noteq> None)"

definition is_course_in_progress :: "filesystem \<Rightarrow> string \<Rightarrow> bool" where
  "is_course_in_progress fs course_folder =
     (let progress_path = path_join (path_join API_OUTPUT_DIR course_folder) ''progress.json''
      in if fs progress_path \<noteq> None then True
         else (let outline_path =
                     path_join (path_join API_OUTPUT_DIR course_folder) ''course_outline.json''
               in fs outline_path \<noteq> None \<and> \<not> is_course_complete fs course_folder))"

subsection \<open>GET /courses (api/main.py)\<close>

text \<open>
  The fields of a course record that are computed from the folder name and from the
  presence of files. The title and the description, copied out of the JSON files, take
  no part in the order.
\<close>

record course_info =
  folder :: string
  timestamp :: "string option"
  complete :: bool
  in_progress :: bool

definition get_course_info :: "filesystem \<Rightarrow> string \<Rightarrow> course_info" where
  "get_course_info fs course_folder =
     \<lparr> folder = course_folder,
       timestamp = extract_timestamp_from_folder course_folder,
       complete = is_course_complete fs course_folder,
       in_progress = is_course_in_progress fs course_folder \<rparr>"

text \<open>
  \<^verbatim>\<open>list.sort(key=..., reverse=True)\<close>: descending by key, elements with equal keys in
  their original order. CPython reverses the list, sorts it stably ascending and reverses
  it again.
\<close>

definition sort_reverse :: "('a \<Rightarrow> 'k::linorder) \<Rightarrow> 'a list \<Rightarrow> 'a list" where
  "sort_reverse f xs = rev (sort_key f (rev xs))"

text \<open>
  \<^verbatim>\<open>key=lambda x: (x["timestamp"] is None, x["timestamp"] if x["timestamp"] else "")\<close>;
  tuples compare lexicographically, \<^verbatim>\<open>False < True\<close>, strings by code point.
\<close>

definition course_key :: "course_info \<Rightarrow> bool \<times> string" where
  "course_key x = (timestamp x = None, (case timestamp x of Some ts \<Rightarrow> ts | None \<Rightarrow> []))"

text \<open>
  \<open>dirs\<close> lists the subdirectories of the output directory in the order of
  \<^verbatim>\<open>os.listdir\<close>.
\<close>

definition get_courses :: "filesystem \<Rightarrow> string list \<Rightarrow> course_info list" where
  "get_courses fs dirs = sort_reverse course_key (map (get_course_info fs) dirs)"

subsection \<open>\<^verbatim>\<open>CourseViewer._scan_courses\<close> (streamlit_app.py)\<close>

record ui_course =
  ui_folder :: string
  ui_timestamp :: "datetime option"
  ui_complete :: bool
  ui_in_progress :: bool

definition datetime_max :: datetime where
  "datetime_max = (9999, 12, 31, 23, 59, 59, 999999)"

definition scan_course :: "filesystem \<Rightarrow> string \<Rightarrow> string \<Rightarrow> ui_course" where
  "scan_course fs output_dir item =
     (let item_path = path_join output_dir item;
          ts = (case search_stamp item of
                  Some timestamp_str \<Rightarrow>
                    (case strptime timestamp_str of Inr t \<Rightarrow> Some t | Inl e \<Rightarrow> None)
                | None \<Rightarrow> None);
          outline_path = path_join item_path ''course_outline.json'';
          progress_final_path = path_join item_path ''progress_final.json'';
          is_complete = (fs progress_final_path \<noteq> None);
          progress_path = path_join item_path ''progress.json'';
          has_progress_file = (fs progress_path \<noteq> None)
      in \<lparr> ui_folder = item, ui_timestamp = ts, ui_complete = is_complete,
           ui_in_progress = ((fs outline_path \<noteq> None \<and> \<not> is_complete) \<or> has_progress_file) \<rparr>)"

definition ui_course_key :: "ui_course \<Rightarrow> bool \<times> datetime" where
  "ui_course_key x =
     (ui_timestamp x = None, (case ui_timestamp x of Some ts \<Rightarrow> ts | None \<Rightarrow> datetime_max))"

definition scan_courses :: "filesystem \<Rightarrow> string \<Rightarrow> string list \<Rightarrow> ui_course list" where
  "scan_courses fs output_dir dirs =
     sort_reverse ui_course_key (map (scan_course fs output_dir) dirs)"

subsection \<open>\<^verbatim>\<open>CoursePipeline._extract_json\<close> (main.py)\<close>

definition fence :: string where
  "fence = ''```''"

text \<open>The text before and the text after the first occurrence of the fence.\<close>

fun find_fence :: "string \<Rightarrow> (string \<times> string) option" where
  "find_fence [] = None"
| "find_fence (c # cs) =
     (if prefix fence (c # cs) then Some ([], drop 3 (c # cs))
      else map_option (\<lambda>(a, b). (c # a, b)) (find_fence cs))"

text \<open>
  The pattern \<^verbatim>\<open>```(?:json)?\s*([\s\S]*?)\s*```\<close> at the start of \<open>s\<close>; the result is group 1.
  After the opening fence the optional tag is taken when it is there, the greedy
  \<^verbatim>\<open>\s*\<close> takes all white space, and the lazy group stops as early as the rest is white
  space followed by a fence: at the white space before the next fence. Giving back the tag
  or some of the white space never opens a match that the greedy choice misses.
\<close>

definition match_fenced_at :: "string \<Rightarrow> string option" where
  "match_fenced_at s =
     (if prefix fence s then
        (let r = drop 3 s;
             r = (if prefix ''json'' r then drop 4 r else r);
             r = dropWhile is_space r
         in case find_fence r of
              Some (body, rest) \<Rightarrow> Some (rev (dropWhile is_space (rev body)))
            | None \<Rightarrow> None)
      else None)"

text \<open>\<^verbatim>\<open>re.search\<close>: the match at the leftmost position that has one.\<close>

fun search_fenced :: "string \<Rightarrow> string option" where
  "search_fenced [] = None"
| "search_fenced (c # cs) =
     (case match_fenced_at (c # cs) of Some g \<Rightarrow> Some g | None \<Rightarrow> search_fenced cs)"

text \<open>The longest prefix of \<open>s\<close> that ends with the character \<open>c\<close>.\<close>

definition upto_last :: "char \<Rightarrow> string \<Rightarrow> string option" where
  "upto_last c s = (if c \<in> set s then Some (rev (dropWhile (\<lambda>x. x \<noteq> c) (rev s))) else None)"

text \<open>
  The pattern \<^verbatim>\<open>(\{[\s\S]*\}|\[[\s\S]*\])\<close> at the start of \<open>s\<close>: the stars are greedy, so
  a match runs to the last closing bracket of its kind.
\<close>

definition match_brackets_at :: "string \<Rightarrow> string option" where
  "match_brackets_at s =
     (case s of
        [] \<Rightarrow> None
      | c # cs \<Rightarrow>
          if c = CHR ''{'' then map_option (\<lambda>u. c # u) (upto_last (CHR ''}'') cs)
          else if c = CHR ''['' then map_option (\<lambda>u. c # u) (upto_last (CHR '']'') cs)
          else None)"

fun search_brackets :: "string \<Rightarrow> string option" where
  "search_brackets [] = None"
| "search_brackets (c # cs) =
     (case match_brackets_at (c # cs) of Some g \<Rightarrow> Some g | None \<Rightarrow> search_brackets cs)"

definition extract_json :: "string \<Rightarrow> string" where
  "extract_json content =
     (case search_fenced content of
        Some g \<Rightarrow> strip g
      | None \<Rightarrow>
          (case search_brackets content of
             Some g \<Rightarrow> strip g
           | None \<Rightarrow> strip content))"

text \<open>
  The specification's first fenced block: the text between the first fence, with its
  optional \<^verbatim>\<open>json\<close> tag, and the next fence; none when no second fence follows.
\<close>

definition fenced_block :: "string \<Rightarrow> string option" where
  "fenced_block content =
     (case find_fence content of
        None \<Rightarrow> None
      | Some (before, rest) \<Rightarrow>
          (case find_fence (if prefix ''json'' rest then drop 4 rest else rest) of
             None \<Rightarrow> None
           | Some (body, after) \<Rightarrow> Some body))"

subsection \<open>\<^verbatim>\<open>ProgressTracker.save_progress\<close> (main.py)\<close>



subsection \<open>The calls on the tracker after Stage 2\<close>







section \<open>Properties\<close>

subsection \<open>Progress percentage\<close>


lemma percentage_zero: "percentage c 0 = Inr 0"
  by (simp add: percentage_def)

text \<open>
  C8. The percentage of \<^verbatim>\<open>get_summary\<close> never raises \<^verbatim>\<open>ZeroDivisionError\<close>: the summary is
  always produced, it reports 0 when \<^verbatim>\<open>total_count\<close> is 0 and 50 when 2 of 4 subunits
  are complete; the progress computed for the log by \<^verbatim>\<open>complete_subunit_content\<close> is
  under the same guard, so that setter always returns as well.
\<close>

theorem progress_percentage_guarded:
  "(\<exists>s. get_summary t = Inr s)
   \<and> (\<exists>s. get_summary (t\<lparr>total_count := 0\<rparr>) = Inr s \<and> progress_percentage s = 0)
   \<and> (\<exists>s. get_summary (t\<lparr>completed_count := 2, total_count := 4\<rparr>) = Inr s
          \<and> progress_percentage s = 50)
   \<and> (\<exists>t'. complete_subunit_content sid t = Inr t')
   \<and> (\<exists>t'. complete_subunit_content sid (t\<lparr>total_count := 0\<rparr>) = Inr t'
          \<and> \<lparr> level = ''success'', component = ''subunit-'' @ sid, progress = Some 0 \<rparr>
                \<in> set (logs t'))"
  by (simp add: get_summary_def complete_subunit_content_def percentage_def py_truediv_def
      Let_def tracker_log_def)

subsection \<open>The filename sanitizer\<close>

lemma set_collapse_underscores: "set (collapse_underscores s) \<subseteq> set s"
proof (induction s rule: collapse_underscores.induct)
  case 1
  then show ?case by simp
next
  case (2 c cs)
  show ?case
  proof (cases "c = CHR ''_'' \<and> cs \<noteq> [] \<and> hd cs = CHR ''_''")
    case True
    have "set (dropWhile (\<lambda>x. x = CHR ''_'') cs) \<subseteq> set cs" by (simp add: set_dropWhileD subsetI)
    with 2(1) True show ?thesis by auto
  next
    case False
    with 2(2) show ?thesis by auto
  qed
qed

lemma collapse_underscores_hd:
  "collapse_underscores s \<noteq> [] \<Longrightarrow> hd (collapse_underscores s) = hd s"
  by (cases s) auto

lemma collapse_underscores_Nil: "collapse_underscores s = [] \<longleftrightarrow> s = []"
  by (cases s) auto

lemma adjacent_underscores_Cons:
  "adjacent_underscores (c # cs) \<longleftrightarrow> (c = CHR ''_'' \<and> cs \<noteq> [] \<and> hd cs = CHR ''_'') \<or> adjacent_underscores cs"
  by (cases cs) auto

lemma no_adjacent_collapse: "\<not> adjacent_underscores (collapse_underscores s)"
proof (induction s rule: collapse_underscores.induct)
  case 1
  then show ?case by simp
next
  case (2 c cs)
  show ?case
  proof (cases "c = CHR ''_'' \<and> cs \<noteq> [] \<and> hd cs = CHR ''_''")
    case True
    let ?r = "dropWhile (\<lambda>x. x = CHR ''_'') cs"
    have "?r = [] \<or> hd ?r \<noteq> CHR ''_''" using hd_dropWhile[of "\<lambda>x. x = CHR ''_''" cs] by blast
    then have "collapse_underscores ?r = [] \<or> hd (collapse_underscores ?r) \<noteq> CHR ''_''"
      using collapse_underscores_hd[of ?r] collapse_underscores_Nil[of ?r] by metis
    moreover have "collapse_underscores (c # cs) = CHR ''_'' # collapse_underscores ?r"
      using True by simp
    ultimately show ?thesis using 2(1) True by (simp only: adjacent_underscores_Cons) blast
  next
    case False
    then have "\<not> (c = CHR ''_'' \<and> collapse_underscores cs \<noteq> [] \<and> hd (collapse_underscores cs) = CHR ''_'')"
      using collapse_underscores_hd[of cs] collapse_underscores_Nil[of cs] by metis
    moreover have "collapse_underscores (c # cs) = c # collapse_underscores cs"
      using False by auto
    ultimately show ?thesis using 2(2) False by (simp only: adjacent_underscores_Cons) blast
  qed
qed

lemma collapse_id: "\<not> adjacent_underscores s \<Longrightarrow> collapse_underscores s = s"
  by (induction s) (auto simp: adjacent_underscores_Cons)

lemma no_adjacent_take: "\<not> adjacent_underscores s \<Longrightarrow> \<not> adjacent_underscores (take n s)"
proof (induction s arbitrary: n)
  case Nil
  then show ?case by simp
next
  case (Cons c cs)
  show ?case
  proof (cases n)
    case 0
    then show ?thesis by simp
  next
    case (Suc m)
    have "take m cs \<noteq> [] \<Longrightarrow> hd (take m cs) = hd cs" by (cases cs; cases m) auto
    with Cons Suc show ?thesis by (auto simp: adjacent_underscores_Cons)
  qed
qed

lemma replace_special_id: "list_all keep_char s \<Longrightarrow> replace_special s = s"
  by (induction s) (auto simp: replace_special_def)

lemma keep_char_underscore: "keep_char (CHR ''_'')"
  by (simp add: keep_char_def is_word_def)

lemma list_all_replace_special: "list_all keep_char (replace_special s)"
  by (induction s) (auto simp: replace_special_def keep_char_underscore)

lemma list_all_sanitize: "list_all keep_char (sanitize_filename s)"
proof -
  have "set (collapse_underscores (replace_special s)) \<subseteq> set (replace_special s)"
    by (rule set_collapse_underscores)
  then have a: "list_all keep_char (collapse_underscores (replace_special s))"
    using list_all_replace_special[of s] by (auto simp: list_all_iff)
  then have "list_all keep_char (take 50 (collapse_underscores (replace_special s)))"
    by (auto simp: list_all_iff dest: in_set_takeD)
  with a show ?thesis by (simp add: sanitize_filename_def Let_def)
qed

lemma sanitize_take: "sanitize_filename s = take 50 (collapse_underscores (replace_special s))"
  by (simp add: sanitize_filename_def Let_def)

lemma length_sanitize: "length (sanitize_filename s) \<le> 50"
  by (simp add: sanitize_take)

lemma sanitize_idem: "sanitize_filename (sanitize_filename s) = sanitize_filename s"
proof -
  let ?o = "sanitize_filename s"
  have 1: "replace_special ?o = ?o" by (rule replace_special_id) (rule list_all_sanitize)
  have 2: "\<not> adjacent_underscores ?o" unfolding sanitize_take by (rule no_adjacent_take) (rule no_adjacent_collapse)
  have 3: "collapse_underscores ?o = ?o" using 2 by (rule collapse_id)
  have "sanitize_filename ?o = take 50 ?o" using 1 3 by (simp add: sanitize_take)
  then show ?thesis using length_sanitize[of s] by simp
qed

lemma keep_char_ascii: "is_ascii c \<Longrightarrow> keep_char c \<Longrightarrow> spec_charset c"
  by (auto simp: is_ascii_def keep_char_def is_word_def is_alnum_def spec_charset_def Let_def)

lemma is_ascii_sanitize: "list_all is_ascii s \<Longrightarrow> list_all is_ascii (sanitize_filename s)"
proof -
  assume a: "list_all is_ascii s"
  have "is_ascii (CHR ''_'')" by (simp add: is_ascii_def)
  with a have "list_all is_ascii (replace_special s)"
    by (induction s) (auto simp: replace_special_def)
  then have "list_all is_ascii (collapse_underscores (replace_special s))"
    using set_collapse_underscores[of "replace_special s"] by (auto simp: list_all_iff)
  then show ?thesis unfolding sanitize_take by (auto simp: list_all_iff dest: in_set_takeD)
qed

text \<open>
  C4, as the specification states it, fails on the character set: \<^verbatim>\<open>\w\<close> also keeps the
  letters and digits beyond ASCII, so the title "Caf\'e" written with U+00E9 is returned
  unchanged, and U+00E9 is not in \<^verbatim>\<open>[A-Za-z0-9_.-]\<close>.
\<close>

theorem sanitize_filename_charset_counterexample:
  "sanitize_filename [CHR ''C'', CHR ''a'', CHR ''f'', CHR 0xE9] = [CHR ''C'', CHR ''a'', CHR ''f'', CHR 0xE9]
   \<and> \<not> list_all spec_charset (sanitize_filename [CHR ''C'', CHR ''a'', CHR ''f'', CHR 0xE9])"
  by (simp add: sanitize_filename_def replace_special_def keep_char_def is_word_def
      is_alnum_def spec_charset_def)

text \<open>
  C4, amended. For every input the output of \<^verbatim>\<open>sanitize_filename\<close> contains only
  characters that \<^verbatim>\<open>[\w\-\.]\<close> matches (word characters, which include the letters and
  digits beyond ASCII, the hyphen and the dot), is at most 50 characters long, and is a
  fixed point of the sanitizer; for an ASCII input the output lies in
  \<^verbatim>\<open>[A-Za-z0-9_.-]\<close>.
\<close>

theorem sanitize_filename_properties:
  "list_all keep_char (sanitize_filename s)
   \<and> length (sanitize_filename s) \<le> 50
   \<and> sanitize_filename (sanitize_filename s) = sanitize_filename s
   \<and> (list_all is_ascii s \<longrightarrow> list_all spec_charset (sanitize_filename s))"
proof -
  have "list_all spec_charset (sanitize_filename s)" if "list_all is_ascii s"
    using is_ascii_sanitize[OF that] list_all_sanitize[of s]
    by (auto simp: list_all_iff intro: keep_char_ascii)
  then show ?thesis
    using list_all_sanitize length_sanitize sanitize_idem by blast
qed

theorem sanitize_filename_properties_witness:
  "list_all is_ascii ''C++:  an  introduction''
   \<and> sanitize_filename ''C++:  an  introduction'' = ''C_an_introduction''
   \<and> list_all spec_charset (sanitize_filename ''C++:  an  introduction'')
   \<and> sanitize_filename (sanitize_filename ''C++:  an  introduction'')
       = sanitize_filename ''C++:  an  introduction''"
  using sanitize_filename_properties [of "''C++:  an  introduction''"]
  by (simp add: is_ascii_def sanitize_filename_def replace_special_def keep_char_def
      is_word_def is_alnum_def)

subsection \<open>Folder names of the creation paths\<close>

lemma escape_quotes_id: "CHR 0x22 \<notin> set s \<Longrightarrow> escape_quotes s = s"
  by (induction s) (auto simp: escape_quotes_def)

text \<open>
  C3, as the specification states it, fails: the creation endpoint does not collapse
  repeated underscores. For the title "a  b" (two spaces) it names the folder with two
  underscores, the pipeline with one.
\<close>

theorem create_course_folder_name_counterexample:
  "create_course_folder_name ''a  b'' (2024, 6, 1, 12, 5, 9, 0) = ''a__b-20240601-120509''
   \<and> create_course_folder ''a  b'' (2024, 6, 1, 12, 5, 9, 0) = ''a_b-20240601-120509''"
  by (simp add: create_course_folder_name_def create_course_folder_def sanitize_filename_def
      replace_special_def keep_char_def is_word_def is_alnum_def pad2_def pad4_def
      digit_char_def)

text \<open>
  C3, amended. The creation endpoint replaces every character that \<^verbatim>\<open>[\w\-\.]\<close> does
  not match with an underscore and truncates to 50 characters, without collapsing
  underscores, and appends a hyphen and the time stamp; the pipeline collapses runs of
  underscores before truncating. The two folder names are equal whenever the replaced
  title has no two adjacent underscores; the name of the UI's create path equals them when
  in addition the title has no double quote.
\<close>

theorem create_paths_agree_without_adjacent_underscores:
  "create_course_folder_name title now = take 50 (replace_special title) @ ''-'' @ strftime now
   \<and> create_course_folder title now
       = take 50 (collapse_underscores (replace_special title)) @ ''-'' @ strftime now
   \<and> (\<not> adjacent_underscores (replace_special title) \<longrightarrow>
        create_course_folder_name title now = create_course_folder title now)
   \<and> (\<not> adjacent_underscores (replace_special title) \<and> CHR 0x22 \<notin> set title \<longrightarrow>
        start_course_generation_folder_name title now = create_course_folder title now)"
  by (auto simp: create_course_folder_name_def create_course_folder_def sanitize_take
      start_course_generation_folder_name_def Let_def collapse_id escape_quotes_id)

theorem create_paths_agree_without_adjacent_underscores_witness:
  "\<not> adjacent_underscores (replace_special ''Intro to Python'')
   \<and> CHR 0x22 \<notin> set ''Intro to Python''
   \<and> create_course_folder_name ''Intro to Python'' (2024, 6, 1, 12, 5, 9, 0)
       = create_course_folder ''Intro to Python'' (2024, 6, 1, 12, 5, 9, 0)
   \<and> start_course_generation_folder_name ''Intro to Python'' (2024, 6, 1, 12, 5, 9, 0)
       = create_course_folder ''Intro to Python'' (2024, 6, 1, 12, 5, 9, 0)
   \<and> create_course_folder ''Intro to Python'' (2024, 6, 1, 12, 5, 9, 0)
       = ''Intro_to_Python-20240601-120509''"
  using create_paths_agree_without_adjacent_underscores
    [of "''Intro to Python''" "(2024, 6, 1, 12, 5, 9, 0)"]
  by (simp add: replace_special_def keep_char_def is_word_def is_alnum_def pad2_def pad4_def
      digit_char_def)

subsection \<open>The order of the course list\<close>

lemma sort_reverse_descending: "sorted_wrt (\<lambda>a b. f b \<le> f a) (sort_reverse f xs)"
proof -
  have "sorted (map f (sort_key f (rev xs)))" by (rule sorted_sort_key)
  then have "sorted_wrt (\<lambda>a b. f a \<le> f b) (sort_key f (rev xs))" by (simp add: sorted_map)
  then show ?thesis by (simp add: sort_reverse_def sorted_wrt_rev)
qed

lemma sort_reverse_nth:
  "i < j \<Longrightarrow> j < length (sort_reverse f xs) \<Longrightarrow> f (sort_reverse f xs ! j) \<le> f (sort_reverse f xs ! i)"
  using sort_reverse_descending[of f xs] by (simp add: sorted_wrt_iff_nth_less)

lemma mset_sort_reverse: "mset (sort_reverse f xs) = mset xs"
  by (simp add: sort_reverse_def)

lemma course_key_order:
  "course_key y \<le> course_key x \<longleftrightarrow>
     (timestamp x = None) \<or> (\<exists>a b. timestamp x = Some a \<and> timestamp y = Some b \<and> b \<le> a)"
  by (cases "timestamp x"; cases "timestamp y") (auto simp: course_key_def less_eq_prod_def)

lemma ui_course_key_order:
  "ui_course_key y \<le> ui_course_key x \<longleftrightarrow>
     (ui_timestamp x = None) \<or> (\<exists>a b. ui_timestamp x = Some a \<and> ui_timestamp y = Some b \<and> b \<le> a)"
  by (cases "ui_timestamp x"; cases "ui_timestamp y") (auto simp: ui_course_key_def less_eq_prod_def)

text \<open>
  C1, as the specification states it, fails: with \<^verbatim>\<open>reverse=True\<close> the first component
  of the key, \<^verbatim>\<open>timestamp is None\<close>, puts the folders without a time stamp first. For
  the folders A (20240101-000000), B (no time stamp) and C (20240601-000000) the list is
  B, C, A.
\<close>

theorem get_courses_order_counterexample:
  "map folder (get_courses Map.empty [''A-20240101-000000'', ''B'', ''C-20240601-000000''])
     = [''B'', ''C-20240601-000000'', ''A-20240101-000000'']"
  by code_simp

text \<open>
  C1, amended. GET /courses and the UI's course scan list every folder once; a folder
  with a parsed time stamp is followed only by folders with a parsed time stamp that is
  not later than its own. So the folders without a parseable time stamp come before all
  folders that have one, and the folders that have one are in descending order of time
  stamp.
\<close>

theorem courses_sorted_descending_missing_first:
  "mset (get_courses fs dirs) = mset (map (get_course_info fs) dirs)
   \<and> (\<forall>i j. i < j \<and> j < length dirs \<and> timestamp (get_courses fs dirs ! i) \<noteq> None \<longrightarrow>
         (\<exists>a b. timestamp (get_courses fs dirs ! i) = Some a
              \<and> timestamp (get_courses fs dirs ! j) = Some b \<and> b \<le> a))
   \<and> mset (scan_courses fs out dirs) = mset (map (scan_course fs out) dirs)
   \<and> (\<forall>i j. i < j \<and> j < length dirs \<and> ui_timestamp (scan_courses fs out dirs ! i) \<noteq> None \<longrightarrow>
         (\<exists>a b. ui_timestamp (scan_courses fs out dirs ! i) = Some a
              \<and> ui_timestamp (scan_courses fs out dirs ! j) = Some b \<and> b \<le> a))"
proof -
  have len1: "length (get_courses fs dirs) = length dirs"
    by (simp add: get_courses_def sort_reverse_def)
  have len2: "length (scan_courses fs out dirs) = length dirs"
    by (simp add: scan_courses_def sort_reverse_def)
  have a: "\<exists>a b. timestamp (get_courses fs dirs ! i) = Some a
              \<and> timestamp (get_courses fs dirs ! j) = Some b \<and> b \<le> a"
    if "i < j" "j < length dirs" "timestamp (get_courses fs dirs ! i) \<noteq> None" for i j
  proof -
    have "course_key (get_courses fs dirs ! j) \<le> course_key (get_courses fs dirs ! i)"
      unfolding get_courses_def using that(1,2) len1
      by (intro sort_reverse_nth) (simp_all add: get_courses_def)
    then show ?thesis using that(3) by (simp add: course_key_order)
  qed
  have b: "\<exists>a b. ui_timestamp (scan_courses fs out dirs ! i) = Some a
              \<and> ui_timestamp (scan_courses fs out dirs ! j) = Some b \<and> b \<le> a"
    if "i < j" "j < length dirs" "ui_timestamp (scan_courses fs out dirs ! i) \<noteq> None" for i j
  proof -
    have "ui_course_key (scan_courses fs out dirs ! j) \<le> ui_course_key (scan_courses fs out dirs ! i)"
      unfolding scan_courses_def using that(1,2) len2
      by (intro sort_reverse_nth) (simp_all add: scan_courses_def)
    then show ?thesis using that(3) by (simp add: ui_course_key_order)
  qed
  show ?thesis
    using a b by (simp add: get_courses_def scan_courses_def mset_sort_reverse)
qed

theorem courses_sorted_descending_missing_first_witness:
  "(1::nat) < 2 \<and> 2 < length [''A-20240101-000000'', ''B'', ''C-20240601-000000'']
   \<and> timestamp (get_courses Map.empty [''A-20240101-000000'', ''B'', ''C-20240601-000000''] ! 1)
        = Some ''2024-06-01T00:00:00''
   \<and> (\<exists>a b. timestamp (get_courses Map.empty
                   [''A-20240101-000000'', ''B'', ''C-20240601-000000''] ! 1) = Some a
          \<and> timestamp (get_courses Map.empty
                   [''A-20240101-000000'', ''B'', ''C-20240601-000000''] ! 2) = Some b
          \<and> b \<le> a)
   \<and> ui_timestamp (scan_courses Map.empty ''output''
                   [''A-20240101-000000'', ''B'', ''C-20240601-000000''] ! 1)
        = Some (2024, 6, 1, 0, 0, 0, 0)
   \<and> (\<exists>a b. ui_timestamp (scan_courses Map.empty ''output''
                   [''A-20240101-000000'', ''B'', ''C-20240601-000000''] ! 1) = Some a
          \<and> ui_timestamp (scan_courses Map.empty ''output''
                   [''A-20240101-000000'', ''B'', ''C-20240601-000000''] ! 2) = Some b
          \<and> b \<le> a)"
proof -
  let ?dirs = "[''A-20240101-000000'', ''B'', ''C-20240601-000000'']"
  have t1: "timestamp (get_courses Map.empty ?dirs ! 1) = Some ''2024-06-01T00:00:00''"
    by code_simp
  have u1: "ui_timestamp (scan_courses Map.empty ''output'' ?dirs ! 1) = Some (2024, 6, 1, 0, 0, 0, 0)"
    by (simp add: scan_courses_def sort_reverse_def ui_course_key_def datetime_max_def
        scan_course_def stamp_here_def is_digit_def strptime_def digits_value_def
        days_in_month_def path_join_def less_eq_prod_def)
  have idx: "(1::nat) < 2 \<and> 2 < length ?dirs" by simp
  note inst = courses_sorted_descending_missing_first [of Map.empty ?dirs "''output''"]
  have a: "\<exists>a b. timestamp (get_courses Map.empty ?dirs ! 1) = Some a
          \<and> timestamp (get_courses Map.empty ?dirs ! 2) = Some b \<and> b \<le> a"
    using inst idx t1 by (metis option.distinct(1))
  have b: "\<exists>a b. ui_timestamp (scan_courses Map.empty ''output'' ?dirs ! 1) = Some a
          \<and> ui_timestamp (scan_courses Map.empty ''output'' ?dirs ! 2) = Some b \<and> b \<le> a"
    using inst idx u1 by (metis option.distinct(1))
  show ?thesis using idx t1 u1 a b by (intro conjI) blast+
qed

subsection \<open>JSON extraction\<close>

lemma space_not_backtick: "is_space c \<Longrightarrow> c \<noteq> CHR 0x60"
  by (auto simp: is_space_def)

lemma prefix_fence_Cons: "prefix fence (c # cs) \<longleftrightarrow> c = CHR 0x60 \<and> prefix [CHR 0x60, CHR 0x60] cs"
  by (auto simp: fence_def)

lemma prefix_fence_decomp: "prefix fence s \<Longrightarrow> s = fence @ drop 3 s"
  by (auto simp: prefix_def fence_def)

lemma find_fence_append: "find_fence b \<noteq> None \<Longrightarrow> find_fence (x @ b) \<noteq> None"
  by (induction x) auto

lemma find_fence_dropWhile_Some:
  assumes "\<And>c. P c \<Longrightarrow> c \<noteq> CHR 0x60"
  shows "find_fence u = Some (a, b) \<Longrightarrow> find_fence (dropWhile P u) = Some (dropWhile P a, b)"
proof (induction u arbitrary: a)
  case Nil
  then show ?case by simp
next
  case (Cons c u)
  show ?case
  proof (cases "prefix fence (c # u)")
    case True
    then have "\<not> P c" using assms by (auto simp: prefix_fence_Cons)
    with True Cons.prems show ?thesis by auto
  next
    case False
    with Cons.prems obtain a' where a': "find_fence u = Some (a', b)" "a = c # a'"
      by (auto split: option.splits)
    show ?thesis
    proof (cases "P c")
      case True
      with a' Cons.IH[of a'] show ?thesis by simp
    next
      case F: False
      with False a' show ?thesis by simp
    qed
  qed
qed

lemma find_fence_dropWhile_None:
  "find_fence u = None \<Longrightarrow> find_fence (dropWhile P u) = None"
  by (induction u) (auto split: if_splits)

lemma find_fence_drop_json:
  "prefix ''json'' u \<Longrightarrow> find_fence (drop 4 u) = map_option (\<lambda>(a, b). (drop 4 a, b)) (find_fence u)"
  by (cases "find_fence (drop 4 u)") (auto simp: prefix_def fence_def)

lemma search_fenced_Some_decomp:
  "search_fenced t = Some g \<Longrightarrow> \<exists>x b. t = x @ b \<and> 3 \<le> length x \<and> find_fence b \<noteq> None"
proof (induction t)
  case Nil
  then show ?case by simp
next
  case (Cons c t)
  show ?case
  proof (cases "match_fenced_at (c # t)")
    case None
    with Cons.prems have "search_fenced t = Some g" by simp
    then obtain x b where "t = x @ b" "3 \<le> length x" "find_fence b \<noteq> None"
      using Cons.IH by blast
    then have "c # t = (c # x) @ b \<and> 3 \<le> length (c # x) \<and> find_fence b \<noteq> None" by simp
    then show ?thesis by blast
  next
    case (Some g')
    define s where "s = c # t"
    define r3 where "r3 = dropWhile is_space
        (if prefix ''json'' (drop 3 s) then drop 4 (drop 3 s) else drop 3 s)"
    from Some have pf: "prefix fence s" and ff: "find_fence r3 \<noteq> None"
      unfolding s_def r3_def
      by (auto simp: match_fenced_at_def Let_def split: if_splits option.splits)
    have "suffix r3 (if prefix ''json'' (drop 3 s) then drop 4 (drop 3 s) else drop 3 s)"
      unfolding r3_def by (rule suffix_dropWhile)
    moreover have "suffix (if prefix ''json'' (drop 3 s) then drop 4 (drop 3 s) else drop 3 s) (drop 3 s)"
      by (metis suffix_drop suffix_order.refl)
    ultimately have "suffix r3 (drop 3 s)" by (rule suffix_order.trans)
    then obtain y where y: "drop 3 s = y @ r3" by (auto simp: suffix_def)
    have "s = fence @ drop 3 s" by (rule prefix_fence_decomp[OF pf])
    then have "s = (fence @ y) @ r3" using y by simp
    moreover have "3 \<le> length (fence @ y)" by (simp add: fence_def)
    ultimately show ?thesis using ff unfolding s_def by blast
  qed
qed

lemma match_fenced_at_None_tl:
  assumes "prefix fence s" "match_fenced_at s = None"
  shows "search_fenced (tl s) = None"
proof (rule ccontr)
  assume "search_fenced (tl s) \<noteq> None"
  then obtain g where "search_fenced (tl s) = Some g" by auto
  then obtain x b where xb: "tl s = x @ b" "3 \<le> length x" "find_fence b \<noteq> None"
    using search_fenced_Some_decomp by blast
  from assms(1) have "s \<noteq> []" by (auto simp: fence_def)
  then have s: "s = (hd s # x) @ b" using xb(1) by (cases s) auto
  have "drop 3 s = drop 3 (hd s # x) @ b"
    using xb(2) by (subst s) simp
  then have f1: "find_fence (drop 3 s) \<noteq> None" using find_fence_append[OF xb(3)] by simp
  let ?r2 = "if prefix ''json'' (drop 3 s) then drop 4 (drop 3 s) else drop 3 s"
  have f2: "find_fence ?r2 \<noteq> None"
    using f1 find_fence_drop_json[of "drop 3 s"] by auto
  have "find_fence (dropWhile is_space ?r2) \<noteq> None"
  proof -
    from f2 obtain a b' where "find_fence ?r2 = Some (a, b')" by auto
    then have "find_fence (dropWhile is_space ?r2) = Some (dropWhile is_space a, b')"
      using find_fence_dropWhile_Some[of is_space ?r2 a b'] space_not_backtick by blast
    then show ?thesis by simp
  qed
  then show False using assms
    by (auto simp: match_fenced_at_def Let_def split: option.splits if_splits)
qed

lemma search_fenced_first:
  "search_fenced s =
     (case find_fence s of None \<Rightarrow> None | Some (before, rest) \<Rightarrow> match_fenced_at (fence @ rest))"
proof (induction s)
  case Nil
  then show ?case by simp
next
  case (Cons c s)
  show ?case
  proof (cases "prefix fence (c # s)")
    case True
    have eq: "fence @ drop 3 (c # s) = c # s" using prefix_fence_decomp[OF True] by (rule sym)
    show ?thesis
    proof (cases "match_fenced_at (c # s)")
      case None
      then have "search_fenced s = None" using match_fenced_at_None_tl[OF True] by simp
      with None True eq show ?thesis by simp
    next
      case (Some g)
      with True eq show ?thesis by simp
    qed
  next
    case False
    then have "match_fenced_at (c # s) = None" by (simp add: match_fenced_at_def)
    with False Cons.IH show ?thesis by (auto split: option.splits)
  qed
qed

lemma match_fenced_at_block:
  "match_fenced_at (fence @ rest) =
     map_option (\<lambda>(body, after). rev (dropWhile is_space (rev (dropWhile is_space body))))
       (find_fence (if prefix ''json'' rest then drop 4 rest else rest))"
proof -
  let ?r2 = "if prefix ''json'' rest then drop 4 rest else rest"
  have d: "drop 3 (fence @ rest) = rest" by (simp add: fence_def)
  have p: "prefix fence (fence @ rest)" by simp
  show ?thesis
  proof (cases "find_fence ?r2")
    case None
    then have "find_fence (dropWhile is_space ?r2) = None" by (rule find_fence_dropWhile_None)
    with None show ?thesis unfolding match_fenced_at_def Let_def d using p by simp
  next
    case (Some ab)
    obtain a b where ab: "ab = (a, b)" by (cases ab)
    have "find_fence (dropWhile is_space ?r2) = Some (dropWhile is_space a, b)"
      using find_fence_dropWhile_Some[of is_space ?r2 a b] space_not_backtick Some ab by blast
    with Some ab show ?thesis unfolding match_fenced_at_def Let_def d using p by simp
  qed
qed

lemma strip_eq: "strip s = rev (dropWhile is_space (rev (dropWhile is_space s)))"
  by (simp add: strip_def)

lemma dropWhile_rstrip:
  assumes "t = [] \<or> \<not> P (hd t)"
  shows "dropWhile P (rev (dropWhile P (rev t))) = rev (dropWhile P (rev t))"
proof (cases "rev (dropWhile P (rev t))")
  case Nil
  then show ?thesis by (simp only: dropWhile.simps)
next
  case (Cons a u)
  then have "t \<noteq> []" by auto
  then have nP: "\<not> P (hd t)" using assms by simp
  have "prefix (rev (dropWhile P (rev t))) t"
    using suffix_dropWhile[of P "rev t"] by (metis rev_rev_ident suffix_to_prefix)
  then have "hd t = a" using Cons by (cases t) (auto simp: prefix_def)
  with nP Cons show ?thesis by simp
qed

lemma strip_strip: "strip (strip s) = strip s"
proof -
  let ?t = "dropWhile is_space s"
  have "?t = [] \<or> \<not> is_space (hd ?t)" using hd_dropWhile[of is_space s] by blast
  then have "dropWhile is_space (strip s) = strip s"
    unfolding strip_eq by (rule dropWhile_rstrip)
  then show ?thesis by (simp add: strip_def)
qed

lemma search_fenced_block:
  "search_fenced content = map_option strip (fenced_block content)"
  by (auto simp: search_fenced_first match_fenced_at_block fenced_block_def strip_def
      split: option.splits)

lemma extract_json_cases:
  "extract_json content =
     (case fenced_block content of
        Some body \<Rightarrow> strip body
      | None \<Rightarrow> (case search_brackets content of Some g \<Rightarrow> strip g | None \<Rightarrow> strip content))"
  by (simp add: extract_json_def search_fenced_block strip_strip split: option.splits)


lemma find_fence_Some:
  "find_fence s = Some (a, b) \<Longrightarrow>
     s = a @ fence @ b \<and> (\<forall>i<length a. \<not> prefix fence (drop i s))"
proof (induction s arbitrary: a)
  case Nil
  then show ?case by simp
next
  case (Cons c s)
  show ?case
  proof (cases "prefix fence (c # s)")
    case True
    with Cons.prems have "a = []" "b = drop 3 (c # s)" by auto
    then show ?thesis using prefix_fence_decomp[OF True] by simp
  next
    case False
    with Cons.prems obtain a' where a': "find_fence s = Some (a', b)" "a = c # a'"
      by (auto split: option.splits)
    from Cons.IH[OF a'(1)] have ih: "s = a' @ fence @ b" "\<forall>i<length a'. \<not> prefix fence (drop i s)"
      by auto
    have "\<not> prefix fence (drop i (c # s))" if "i < length a" for i
      using that False ih(2) a'(2) by (cases i) auto
    then show ?thesis using ih(1) a'(2) by simp
  qed
qed

lemma find_fence_no_backtick: "CHR 0x60 \<notin> set s \<Longrightarrow> find_fence s = None"
  by (induction s) (auto simp: prefix_fence_Cons)

lemma fenced_block_no_backtick: "CHR 0x60 \<notin> set s \<Longrightarrow> fenced_block s = None"
  by (simp add: fenced_block_def find_fence_no_backtick)

lemma fenced_block_Some:
  assumes "fenced_block content = Some body"
  shows "\<exists>before tag after. content = before @ fence @ tag @ body @ fence @ after
           \<and> (tag = ''json'' \<or> tag = [] \<and> \<not> prefix ''json'' (body @ fence @ after))
           \<and> (\<forall>i<length before. \<not> prefix fence (drop i content))
           \<and> (\<forall>i<length body. \<not> prefix fence (drop i (body @ fence @ after)))"
proof -
  from assms obtain before rest where 1: "find_fence content = Some (before, rest)"
    by (auto simp: fenced_block_def split: option.splits)
  define r where "r = (if prefix ''json'' rest then drop 4 rest else rest)"
  from assms 1 obtain after where 2: "find_fence r = Some (body, after)"
    by (auto simp: fenced_block_def r_def split: option.splits)
  define tag where "tag = (if prefix ''json'' rest then ''json'' else [])"
  have rest: "rest = tag @ r"
    by (auto simp: tag_def r_def prefix_def)
  note f1 = find_fence_Some[OF 1] and f2 = find_fence_Some[OF 2]
  have A: "content = before @ fence @ tag @ body @ fence @ after"
    using f1 f2 rest by simp
  have B: "tag = ''json'' \<or> tag = [] \<and> \<not> prefix ''json'' (body @ fence @ after)"
  proof (cases "prefix ''json'' rest")
    case True
    then show ?thesis by (simp add: tag_def)
  next
    case False
    then have t: "tag = []" by (simp add: tag_def)
    from False have "\<not> prefix ''json'' r" by (simp add: r_def)
    moreover have "r = body @ fence @ after" using f2 by simp
    ultimately have "\<not> prefix ''json'' (body @ fence @ after)" by simp
    with t show ?thesis by simp
  qed
  have C: "\<forall>i<length before. \<not> prefix fence (drop i content)"
    by (rule conjunct2[OF f1])
  have "\<forall>i<length body. \<not> prefix fence (drop i r)"
    by (rule conjunct2[OF f2])
  then have D: "\<forall>i<length body. \<not> prefix fence (drop i (body @ fence @ after))"
    using conjunct1[OF f2] by simp
  show ?thesis
    by (rule exI[of _ before], rule exI[of _ tag], rule exI[of _ after])
      (rule conjI[OF A conjI[OF B conjI[OF C D]]])
qed

lemma upto_last_Some:
  assumes "upto_last c s = Some u"
  shows "\<exists>post. s = u @ post \<and> c \<notin> set post \<and> u \<noteq> [] \<and> last u = c"
proof -
  let ?P = "\<lambda>x. x \<noteq> c"
  from assms have c: "c \<in> set s" and u: "u = rev (dropWhile ?P (rev s))"
    by (auto simp: upto_last_def split: if_splits)
  have ne: "dropWhile ?P (rev s) \<noteq> []" using c by (simp add: dropWhile_eq_Nil_conv)
  then have "hd (dropWhile ?P (rev s)) = c" using hd_dropWhile[of ?P "rev s"] by blast
  then have l: "last u = c" using ne u by (simp add: last_rev)
  have "rev s = takeWhile ?P (rev s) @ dropWhile ?P (rev s)" by simp
  then have "s = rev (dropWhile ?P (rev s)) @ rev (takeWhile ?P (rev s))"
    by (metis rev_append rev_rev_ident)
  moreover have "c \<notin> set (rev (takeWhile ?P (rev s)))"
    by (auto dest: set_takeWhileD)
  ultimately show ?thesis using u ne l by blast
qed

lemma upto_last_append:
  assumes "c \<notin> set post"
  shows "upto_last c (u @ c # post) = Some (u @ [c])"
proof -
  have "dropWhile (\<lambda>x. x \<noteq> c) (rev post @ c # rev u) = dropWhile (\<lambda>x. x \<noteq> c) (c # rev u)"
    by (rule dropWhile_append2) (use assms in auto)
  then show ?thesis by (simp add: upto_last_def)
qed

lemma match_brackets_at_Some:
  assumes "match_brackets_at s = Some g"
  shows "\<exists>post. s = g @ post \<and> 2 \<le> length g
           \<and> (hd g = CHR ''{'' \<and> last g = CHR ''}'' \<and> CHR ''}'' \<notin> set post
              \<or> hd g = CHR ''['' \<and> last g = CHR '']'' \<and> CHR '']'' \<notin> set post)"
proof (cases s)
  case Nil
  with assms show ?thesis by (simp add: match_brackets_at_def)
next
  case (Cons c cs)
  consider (brace) u where "c = CHR ''{''" "upto_last (CHR ''}'') cs = Some u" "g = c # u"
    | (bracket) u where "c = CHR ''[''" "upto_last (CHR '']'') cs = Some u" "g = c # u"
    using assms Cons by (auto simp: match_brackets_at_def split: if_splits)
  then show ?thesis
  proof cases
    case brace
    from upto_last_Some[OF brace(2)] obtain post where
      "cs = u @ post" "CHR ''}'' \<notin> set post" "u \<noteq> []" "last u = CHR ''}''" by blast
    then show ?thesis using brace Cons by (cases u) auto
  next
    case bracket
    from upto_last_Some[OF bracket(2)] obtain post where
      "cs = u @ post" "CHR '']'' \<notin> set post" "u \<noteq> []" "last u = CHR '']''" by blast
    then show ?thesis using bracket Cons by (cases u) auto
  qed
qed

lemma search_brackets_Some:
  "search_brackets content = Some g \<Longrightarrow>
     \<exists>before after. content = before @ g @ after \<and> 2 \<le> length g
        \<and> (hd g = CHR ''{'' \<and> last g = CHR ''}'' \<and> CHR ''}'' \<notin> set after
           \<or> hd g = CHR ''['' \<and> last g = CHR '']'' \<and> CHR '']'' \<notin> set after)
        \<and> (\<forall>i<length before. match_brackets_at (drop i content) = None)"
proof (induction content)
  case Nil
  then show ?case by simp
next
  case (Cons c cs)
  show ?case
  proof (cases "match_brackets_at (c # cs)")
    case None
    with Cons.prems have "search_brackets cs = Some g" by simp
    from Cons.IH[OF this] obtain before after where ih:
      "cs = before @ g @ after" "2 \<le> length g"
      "hd g = CHR ''{'' \<and> last g = CHR ''}'' \<and> CHR ''}'' \<notin> set after
         \<or> hd g = CHR ''['' \<and> last g = CHR '']'' \<and> CHR '']'' \<notin> set after"
      "\<forall>i<length before. match_brackets_at (drop i cs) = None" by blast
    have "match_brackets_at (drop i (c # cs)) = None" if "i < length (c # before)" for i
      using that None ih(4) by (cases i) auto
    moreover have "c # cs = (c # before) @ g @ after" using ih(1) by simp
    ultimately show ?thesis using ih(2,3) by blast
  next
    case (Some g')
    with Cons.prems have "g' = g" by simp
    with Some match_brackets_at_Some[of "c # cs" g] obtain post where
      "c # cs = [] @ g @ post" "2 \<le> length g"
      "hd g = CHR ''{'' \<and> last g = CHR ''}'' \<and> CHR ''}'' \<notin> set post
         \<or> hd g = CHR ''['' \<and> last g = CHR '']'' \<and> CHR '']'' \<notin> set post" by auto
    moreover have "\<forall>i<length ([]::string). match_brackets_at (drop i (c # cs)) = None" by simp
    ultimately show ?thesis by blast
  qed
qed

lemma search_brackets_None:
  "search_brackets content = None \<Longrightarrow> match_brackets_at (drop i content) = None"
proof (induction content arbitrary: i)
  case Nil
  then show ?case by (simp add: match_brackets_at_def)
next
  case (Cons c cs)
  then show ?case by (cases i) (auto split: option.splits)
qed

lemma search_brackets_skip:
  "CHR ''{'' \<notin> set before \<Longrightarrow> CHR ''['' \<notin> set before \<Longrightarrow>
     search_brackets (before @ s) = search_brackets s"
  by (induction before) (auto simp: match_brackets_at_def)

lemma search_brackets_no_opening:
  "CHR ''{'' \<notin> set s \<Longrightarrow> CHR ''['' \<notin> set s \<Longrightarrow> search_brackets s = None"
  by (induction s) (auto simp: match_brackets_at_def)

lemma strip_list_123: "strip ''[1,2,3]'' = ''[1,2,3]''"
  by (simp add: strip_def is_space_def)

lemma extract_list_123:
  assumes "CHR 0x60 \<notin> set (before @ after)"
    and "CHR ''{'' \<notin> set before" "CHR ''['' \<notin> set before" "CHR '']'' \<notin> set after"
  shows "extract_json (before @ ''[1,2,3]'' @ after) = ''[1,2,3]''"
proof -
  have "CHR 0x60 \<notin> set (before @ ''[1,2,3]'' @ after)" using assms(1) by simp
  then have fb: "fenced_block (before @ ''[1,2,3]'' @ after) = None"
    by (rule fenced_block_no_backtick)
  have "upto_last (CHR '']'') (''1,2,3'' @ CHR '']'' # after) = Some (''1,2,3'' @ [CHR '']''])"
    using assms(4) by (rule upto_last_append)
  then have "match_brackets_at (''[1,2,3]'' @ after) = Some ''[1,2,3]''"
    by (simp add: match_brackets_at_def)
  then have "search_brackets (''[1,2,3]'' @ after) = Some ''[1,2,3]''" by simp
  then have "search_brackets (before @ ''[1,2,3]'' @ after) = Some ''[1,2,3]''"
    using search_brackets_skip[OF assms(2,3)] by simp
  with fb show ?thesis by (simp add: extract_json_cases strip_list_123)
qed

text \<open>
  C7, as the specification states it, fails on the bracket rule: the stars of the second
  pattern are greedy, so the span runs to the last closing bracket of the input, not to
  the end of the first bracketed group. The input below has no code fence and contains
  \<^verbatim>\<open>[1,2,3]\<close>, and it is returned whole.
\<close>

theorem extract_json_first_span_counterexample:
  "fenced_block ''[1,2,3] and [4]'' = None
   \<and> extract_json ''[1,2,3] and [4]'' = ''[1,2,3] and [4]''"
  by code_simp

text \<open>
  C7, amended. \<^verbatim>\<open>_extract_json\<close> returns, in this order of preference: the trimmed text
  between the first fence (with its optional \<^verbatim>\<open>json\<close> tag) and the next fence, when
  there is one; otherwise the trimmed span that starts at the leftmost brace or bracket
  with a closing partner of its kind after it and runs to the last such closing partner;
  otherwise the whole input trimmed. An input without a backtick in which no opening
  brace or bracket stands before \<^verbatim>\<open>[1,2,3]\<close> and no closing bracket after it extracts to
  \<^verbatim>\<open>[1,2,3]\<close>; an input with no backtick and no opening brace or bracket is returned
  trimmed.
\<close>

theorem extract_json_policy:
  "extract_json content =
     (case fenced_block content of
        Some body \<Rightarrow> strip body
      | None \<Rightarrow> (case search_brackets content of Some g \<Rightarrow> strip g | None \<Rightarrow> strip content))
   \<and> (\<forall>body. fenced_block content = Some body \<longrightarrow>
         (\<exists>before tag after. content = before @ fence @ tag @ body @ fence @ after
            \<and> (tag = ''json'' \<or> tag = [] \<and> \<not> prefix ''json'' (body @ fence @ after))
            \<and> (\<forall>i<length before. \<not> prefix fence (drop i content))
            \<and> (\<forall>i<length body. \<not> prefix fence (drop i (body @ fence @ after)))))
   \<and> (\<forall>g. search_brackets content = Some g \<longrightarrow>
         (\<exists>before after. content = before @ g @ after \<and> 2 \<le> length g
            \<and> (hd g = CHR ''{'' \<and> last g = CHR ''}'' \<and> CHR ''}'' \<notin> set after
               \<or> hd g = CHR ''['' \<and> last g = CHR '']'' \<and> CHR '']'' \<notin> set after)
            \<and> (\<forall>i<length before. match_brackets_at (drop i content) = None)))
   \<and> (search_brackets content = None \<longrightarrow> (\<forall>i. match_brackets_at (drop i content) = None))
   \<and> (\<forall>before after. content = before @ ''[1,2,3]'' @ after \<and> CHR 0x60 \<notin> set content
         \<and> CHR ''{'' \<notin> set before \<and> CHR ''['' \<notin> set before \<and> CHR '']'' \<notin> set after
         \<longrightarrow> extract_json content = ''[1,2,3]'')
   \<and> (CHR 0x60 \<notin> set content \<and> CHR ''{'' \<notin> set content \<and> CHR ''['' \<notin> set content
         \<longrightarrow> extract_json content = strip content)"
proof -
  have p1: "\<forall>body. fenced_block content = Some body \<longrightarrow>
         (\<exists>before tag after. content = before @ fence @ tag @ body @ fence @ after
            \<and> (tag = ''json'' \<or> tag = [] \<and> \<not> prefix ''json'' (body @ fence @ after))
            \<and> (\<forall>i<length before. \<not> prefix fence (drop i content))
            \<and> (\<forall>i<length body. \<not> prefix fence (drop i (body @ fence @ after))))"
    by (intro allI impI) (rule fenced_block_Some)
  have p2: "\<forall>g. search_brackets content = Some g \<longrightarrow>
         (\<exists>before after. content = before @ g @ after \<and> 2 \<le> length g
            \<and> (hd g = CHR ''{'' \<and> last g = CHR ''}'' \<and> CHR ''}'' \<notin> set after
               \<or> hd g = CHR ''['' \<and> last g = CHR '']'' \<and> CHR '']'' \<notin> set after)
            \<and> (\<forall>i<length before. match_brackets_at (drop i content) = None))"
    by (intro allI impI) (rule search_brackets_Some)
  have p3: "search_brackets content = None \<longrightarrow> (\<forall>i. match_brackets_at (drop i content) = None)"
    by (intro allI impI) (rule search_brackets_None)
  have p4: "\<forall>before after. content = before @ ''[1,2,3]'' @ after \<and> CHR 0x60 \<notin> set content
         \<and> CHR ''{'' \<notin> set before \<and> CHR ''['' \<notin> set before \<and> CHR '']'' \<notin> set after
         \<longrightarrow> extract_json content = ''[1,2,3]''"
  proof (intro allI impI)
    fix before after
    assume a: "content = before @ ''[1,2,3]'' @ after \<and> CHR 0x60 \<notin> set content
         \<and> CHR ''{'' \<notin> set before \<and> CHR ''['' \<notin> set before \<and> CHR '']'' \<notin> set after"
    then have "CHR 0x60 \<notin> set (before @ after)" by auto
    then have "extract_json (before @ ''[1,2,3]'' @ after) = ''[1,2,3]''"
      using a by (intro extract_list_123) simp_all
    then show "extract_json content = ''[1,2,3]''" using a by simp
  qed
  have p5: "CHR 0x60 \<notin> set content \<and> CHR ''{'' \<notin> set content \<and> CHR ''['' \<notin> set content
         \<longrightarrow> extract_json content = strip content"
    by (simp add: extract_json_cases fenced_block_no_backtick search_brackets_no_opening)
  show ?thesis
    by (rule conjI[OF extract_json_cases conjI[OF p1 conjI[OF p2 conjI[OF p3 conjI[OF p4 p5]]]]])
qed

theorem extract_json_policy_witness:
  "CHR 0x60 \<notin> set ''see [1,2,3] here''
   \<and> CHR ''{'' \<notin> set ''see '' \<and> CHR ''['' \<notin> set ''see '' \<and> CHR '']'' \<notin> set '' here''
   \<and> extract_json ''see [1,2,3] here'' = ''[1,2,3]''
   \<and> extract_json ''  plain text  '' = ''plain text''"
proof -
  note a = extract_json_policy [of "''see [1,2,3] here''"]
  note b = extract_json_policy [of "''  plain text  ''"]
  have a4: "\<forall>before after. ''see [1,2,3] here'' = before @ ''[1,2,3]'' @ after
         \<and> CHR 0x60 \<notin> set ''see [1,2,3] here''
         \<and> CHR ''{'' \<notin> set before \<and> CHR ''['' \<notin> set before \<and> CHR '']'' \<notin> set after
         \<longrightarrow> extract_json ''see [1,2,3] here'' = ''[1,2,3]''"
    by (rule conjunct1[OF conjunct2[OF conjunct2[OF conjunct2[OF conjunct2[OF a]]]]])
  have pre: "''see [1,2,3] here'' = ''see '' @ ''[1,2,3]'' @ '' here''
         \<and> CHR 0x60 \<notin> set ''see [1,2,3] here''
         \<and> CHR ''{'' \<notin> set ''see '' \<and> CHR ''['' \<notin> set ''see '' \<and> CHR '']'' \<notin> set '' here''"
    by simp
  have r1: "extract_json ''see [1,2,3] here'' = ''[1,2,3]''"
    using a4 [rule_format, OF pre] .
  have b5: "CHR 0x60 \<notin> set ''  plain text  '' \<and> CHR ''{'' \<notin> set ''  plain text  ''
         \<and> CHR ''['' \<notin> set ''  plain text  ''
         \<longrightarrow> extract_json ''  plain text  '' = strip ''  plain text  ''"
    by (rule conjunct2[OF conjunct2[OF conjunct2[OF conjunct2[OF conjunct2[OF b]]]]])
  have "extract_json ''  plain text  '' = strip ''  plain text  ''"
    using b5 by simp
  then have r2: "extract_json ''  plain text  '' = ''plain text''"
    by (simp add: strip_def is_space_def)
  show ?thesis using pre r1 r2 by simp
qed

subsection \<open>Retry ceiling\<close>










subsection \<open>Integer keys of the status map\<close>






















end
